theory Spec2Isabelle
  imports Complex_Main "HOL-Library.Word" "HOL-Library.Multiset"
begin

unbundle bit_operations_syntax

section \<open>The HC-SR04 stand-off controller (week01/standoff/src/hc-sr04.cpp)\<close>

text \<open>
  The sketch runs on an ATmega32U4 (AVR). On that target \<^verbatim>\<open>int\<close> and
  \<^verbatim>\<open>unsigned int\<close> are 16 bits wide, \<^verbatim>\<open>uint32_t\<close> is 32 bits wide and
  \<^verbatim>\<open>float\<close> is the 32-bit binary format. Unsigned machine integers are words, whose
  arithmetic wraps around; the signed \<^verbatim>\<open>int\<close> is a 16-bit word read with \<open>sint\<close>.
\<close>

type_synonym u8 = "8 word"
type_synonym u16 = "16 word"
type_synonym u32 = "32 word"
type_synonym int16 = "16 word"

subsection \<open>Floating point\<close>

text \<open>
  A \<^verbatim>\<open>float\<close> value is modelled by the real number it denotes. The float library of
  the target is not part of the repository, so the rounding that every float operation
  applies to its exact result is a parameter \<open>rnd\<close> of the model. The theorems below
  assume of it only what every rounding mode of the binary format provides: rounding is
  monotone, and a number of the format (a 24-bit significand scaled by a power of two) is
  rounded to itself. The identity function is the idealised instance without rounding
  error. The float constants of the sketch (5, 10, 20 and 58) are numbers of the format
  and stand for themselves.
\<close>

type_synonym float = real

definition binary32 :: "real \<Rightarrow> bool" where
  "binary32 x \<longleftrightarrow>
     (\<exists>(m::int) (k::nat). \<bar>m\<bar> < 2 ^ 24 \<and>
        ((k \<le> 104 \<and> x = real_of_int m * 2 ^ k) \<or> (k \<le> 149 \<and> x = real_of_int m / 2 ^ k)))"

definition fp_rounding :: "(real \<Rightarrow> float) \<Rightarrow> bool" where
  "fp_rounding rnd \<longleftrightarrow>
     (\<forall>x y. x \<le> y \<longrightarrow> rnd x \<le> rnd y) \<and> (\<forall>x. binary32 x \<longrightarrow> rnd x = x)"

definition fsub :: "(real \<Rightarrow> float) \<Rightarrow> float \<Rightarrow> float \<Rightarrow> float" where
  "fsub rnd a b = rnd (a - b)"

definition fmul :: "(real \<Rightarrow> float) \<Rightarrow> float \<Rightarrow> float \<Rightarrow> float" where
  "fmul rnd a b = rnd (a * b)"

definition fdiv :: "(real \<Rightarrow> float) \<Rightarrow> float \<Rightarrow> float \<Rightarrow> float" where
  "fdiv rnd a b = rnd (a / b)"

text \<open>The implicit conversion of a \<^verbatim>\<open>uint32_t\<close> to \<^verbatim>\<open>float\<close>.\<close>

definition float_of_u32 :: "(real \<Rightarrow> float) \<Rightarrow> u32 \<Rightarrow> float" where
  "float_of_u32 rnd w = rnd (real (unat w))"

text \<open>
  The implicit conversion of a \<^verbatim>\<open>float\<close> to \<^verbatim>\<open>uint32_t\<close> discards the fraction
  (truncation towards zero). C leaves the conversion undefined when the truncated value is
  not in the range of the target type; the model wraps there.
\<close>

definition u32_of_float :: "float \<Rightarrow> u32" where
  "u32_of_float x = word_of_int (if 0 \<le> x then \<lfloor>x\<rfloor> else \<lceil>x\<rceil>)"

text \<open>
  Arduino.h, which the sketch includes, replaces \<^verbatim>\<open>abs\<close> by the macro
  \<^verbatim>\<open>((x)>0?(x):-(x))\<close>, so \<^verbatim>\<open>abs(speed)\<close> is evaluated on the float.
\<close>

definition abs_macro :: "float \<Rightarrow> float" where
  "abs_macro x = (if x > 0 then x else - x)"

subsection \<open>Global state\<close>

datatype PULSE_STATE = PLS_IDLE | PLS_WAITING_LOW | PLS_WAITING_HIGH | PLS_CAPTURED

text \<open>
  What the sketch does to the outside world, in the order it happens: writes to a digital
  pin, the busy wait, the call \<^verbatim>\<open>motors.setEfforts\<close> with its two arguments, and the
  line of telemetry written to the serial port (the six printed values, not their text).
  The Romi32U4 library is outside the repository: \<open>SetEfforts\<close> records the values of the
  two argument expressions of the call.
\<close>

datatype effect =
    DigitalWrite u8 bool
  | DelayMicroseconds nat
  | SetEfforts float float
  | SerialLine u32 u16 u32 float float float

record state =
  pulseStart :: u16
  pulseEnd :: u16
  pulseState :: PULSE_STATE
  lastPing :: u32
  filterValues :: "u32 list"
  currIndex :: int16
  TIFR3 :: u8
  TIMSK3 :: u8
  TCCR3B :: u8
  outputs :: "effect list"

definition trigPin :: u8 where
  "trigPin = 12"

definition PING_INTERVAL :: u32 where
  "PING_INTERVAL = 100"

text \<open>
  The globals as their initialisers leave them; the three timer registers hold whatever
  the Arduino start-up code has put there.
\<close>

definition boot :: "u8 \<Rightarrow> u8 \<Rightarrow> u8 \<Rightarrow> state" where
  "boot tifr3 timsk3 tccr3b =
     \<lparr>pulseStart = 0, pulseEnd = 0, pulseState = PLS_IDLE, lastPing = 0,
      filterValues = [0, 0, 0, 0, 0], currIndex = 0,
      TIFR3 = tifr3, TIMSK3 = timsk3, TCCR3B = tccr3b, outputs = []\<rparr>"

text \<open>
  \<^verbatim>\<open>setup()\<close>: of its effects the model keeps \<^verbatim>\<open>lastPing = millis()\<close>; the serial
  banner, \<^verbatim>\<open>TCCR3A\<close> and the pin modes are read by nothing below.
\<close>

definition setup_fn :: "u32 \<Rightarrow> state \<Rightarrow> state" where
  "setup_fn millis s = s\<lparr>lastPing := millis\<rparr>"

subsection \<open>CommandPing\<close>

text \<open>
  Writing a one to a bit of the flag register \<^verbatim>\<open>TIFR3\<close> clears that flag. Between
  \<^verbatim>\<open>cli()\<close> and \<^verbatim>\<open>sei()\<close> no interrupt is served, and the interrupt routine does
  nothing while \<open>pulseState\<close> is \<open>PLS_IDLE\<close>, so the routine is one atomic step.
\<close>

definition CommandPing :: "u8 \<Rightarrow> state \<Rightarrow> state" where
  "CommandPing pin s =
     (let s1 = s\<lparr>TIFR3 := TIFR3 s AND NOT 0x20\<rparr>;
          s2 = s1\<lparr>TIMSK3 := TIMSK3 s1 OR 0x20\<rparr>;
          s3 = s2\<lparr>TCCR3B := TCCR3B s2 OR 0xC0\<rparr>;
          s4 = s3\<lparr>pulseState := PLS_WAITING_LOW\<rparr>
      in s4\<lparr>outputs := outputs s4 @
            [DigitalWrite pin True, DelayMicroseconds 10, DigitalWrite pin False]\<rparr>)"

subsection \<open>The filters\<close>

text \<open>
  \<^verbatim>\<open>cmpfunc\<close> subtracts two \<^verbatim>\<open>uint32_t\<close> and returns the difference as an
  \<^verbatim>\<open>int\<close>, which keeps its low 16 bits.
\<close>

definition cmpfunc :: "u32 \<Rightarrow> u32 \<Rightarrow> int16" where
  "cmpfunc a b = ucast (a - b)"

text \<open>
  \<^verbatim>\<open>qsort\<close> belongs to the C library, whose algorithm is not part of the repository.
  \<open>qsort n\<close> rearranges the first \<open>n\<close> elements of the array in place. It is modelled by
  insertion sort driven by the comparison function: an element goes in front of the first
  element that it does not compare greater than. Where the comparison function agrees
  with the order of the values, which \<^verbatim>\<open>cmpfunc\<close> does on values below \<open>2 ^ 15\<close>, every
  sorting algorithm returns the same array, the ascending one (\<open>qsort_list_sort\<close> below).
  Elsewhere the array that comes back depends on the algorithm of the library, and the
  properties below say nothing about its order there.
\<close>

fun qsort_insert :: "(u32 \<Rightarrow> u32 \<Rightarrow> int16) \<Rightarrow> u32 \<Rightarrow> u32 list \<Rightarrow> u32 list" where
  "qsort_insert cmp x [] = [x]"
| "qsort_insert cmp x (y # ys) =
     (if sint (cmp x y) \<le> 0 then x # y # ys else y # qsort_insert cmp x ys)"

fun qsort_list :: "(u32 \<Rightarrow> u32 \<Rightarrow> int16) \<Rightarrow> u32 list \<Rightarrow> u32 list" where
  "qsort_list cmp [] = []"
| "qsort_list cmp (x # xs) = qsort_insert cmp x (qsort_list cmp xs)"

definition qsort :: "nat \<Rightarrow> (u32 \<Rightarrow> u32 \<Rightarrow> int16) \<Rightarrow> u32 list \<Rightarrow> u32 list" where
  "qsort n cmp vs = qsort_list cmp (take n vs) @ drop n vs"

text \<open>
  \<^verbatim>\<open>median\<close> receives a pointer to the caller's array: the model returns the result
  together with the array as the call leaves it.
\<close>

definition median :: "u32 list \<Rightarrow> u32 \<times> u32 list" where
  "median vs = (let vs' = qsort 5 cmpfunc vs in (vs' ! 2, vs'))"

text \<open>
  \<^verbatim>\<open>mean\<close> adds the five values in \<^verbatim>\<open>uint32_t\<close>, divides the sum by the float
  \<^verbatim>\<open>5.0\<close> and converts the quotient back to \<^verbatim>\<open>uint32_t\<close>. It only reads the array.
\<close>

definition mean :: "(real \<Rightarrow> float) \<Rightarrow> u32 list \<Rightarrow> u32" where
  "mean rnd vs =
     (let sum = vs ! 0 + vs ! 1 + vs ! 2 + vs ! 3 + vs ! 4
      in u32_of_float (fdiv rnd (float_of_u32 rnd sum) 5))"

subsection \<open>The main loop\<close>

text \<open>Lines 114 to 119: the scheduler, with \<open>currTime\<close> the value of \<^verbatim>\<open>millis()\<close>.\<close>

definition loop_schedule :: "u32 \<Rightarrow> state \<Rightarrow> state" where
  "loop_schedule currTime s =
     (if currTime - lastPing s \<ge> PING_INTERVAL \<and> pulseState s = PLS_IDLE
      then CommandPing trigPin (s\<lparr>lastPing := currTime\<rparr>)
      else s)"

text \<open>
  The timer counts of the pulse. Both operands are \<^verbatim>\<open>uint16_t\<close>, which is
  \<^verbatim>\<open>unsigned int\<close> on this target: the subtraction is taken modulo \<open>2 ^ 16\<close>.
\<close>

definition pulseLengthTimerCounts :: "state \<Rightarrow> u16" where
  "pulseLengthTimerCounts s = pulseEnd s - pulseStart s"

text \<open>
  \<^verbatim>\<open>pulseLengthTimerCounts * 4\<close> multiplies an \<^verbatim>\<open>unsigned int\<close> by an \<^verbatim>\<open>int\<close>:
  the product is a 16-bit \<^verbatim>\<open>unsigned int\<close>, and only then widened to \<^verbatim>\<open>uint32_t\<close>.
\<close>

definition pulseLengthUS :: "u16 \<Rightarrow> u32" where
  "pulseLengthUS counts = ucast (counts * 4)"

definition distancePulse :: "(real \<Rightarrow> float) \<Rightarrow> u32 \<Rightarrow> float" where
  "distancePulse rnd us = fdiv rnd (float_of_u32 rnd us) 58"

definition filteredDistance :: "(real \<Rightarrow> float) \<Rightarrow> u32 list \<Rightarrow> float" where
  "filteredDistance rnd vs = fdiv rnd (float_of_u32 rnd (mean rnd vs)) 58"

definition kp :: float where
  "kp = 10"

text \<open>Lines 159 to 166: the speed handed to \<^verbatim>\<open>motors.setEfforts\<close>.\<close>

definition speed_of_err :: "(real \<Rightarrow> float) \<Rightarrow> float \<Rightarrow> float" where
  "speed_of_err rnd err =
     (let speed = fmul rnd kp err
      in if abs_macro speed \<le> 5 then 0 else speed)"

definition controller :: "(real \<Rightarrow> float) \<Rightarrow> float \<Rightarrow> float" where
  "controller rnd d = speed_of_err rnd (fsub rnd d 20)"

text \<open>
  \<^verbatim>\<open>currIndex += (currIndex == 4) ? -4 : 1\<close> on the 16-bit \<^verbatim>\<open>int\<close>.
\<close>

definition next_index :: "int16 \<Rightarrow> int16" where
  "next_index i = i + (if i = 4 then - 4 else 1)"

text \<open>
  Lines 121 to 182: the consumer, with \<open>now\<close> the value of \<^verbatim>\<open>millis()\<close> that the
  telemetry line prints. The routine sets \<open>pulseState\<close> to \<open>PLS_IDLE\<close> before it reads the
  two counts, and the interrupt routine writes nothing in that state, so this is one
  atomic step as well. The array is written at the value of the signed index, which lies
  between 0 and 4 in every state that a run reaches.
\<close>

definition loop_consume :: "(real \<Rightarrow> float) \<Rightarrow> u32 \<Rightarrow> state \<Rightarrow> state" where
  "loop_consume rnd now s =
     (if pulseState s = PLS_CAPTURED then
        let s1 = s\<lparr>pulseState := PLS_IDLE\<rparr>;
            counts = pulseLengthTimerCounts s1;
            us = pulseLengthUS counts;
            s2 = s1\<lparr>filterValues := (filterValues s1)[nat (sint (currIndex s1)) := us]\<rparr>;
            s3 = s2\<lparr>currIndex := next_index (currIndex s2)\<rparr>;
            fd = filteredDistance rnd (filterValues s3);
            speed = controller rnd fd
        in s3\<lparr>outputs := outputs s3 @
              [SetEfforts speed speed,
               SerialLine now counts us (distancePulse rnd us) fd speed]\<rparr>
      else s)"

text \<open>One pass of \<^verbatim>\<open>loop()\<close> that no interrupt falls into.\<close>

definition loop :: "(real \<Rightarrow> float) \<Rightarrow> u32 \<Rightarrow> u32 \<Rightarrow> state \<Rightarrow> state" where
  "loop rnd currTime now s = loop_consume rnd now (loop_schedule currTime s)"

subsection \<open>The input-capture interrupt\<close>

text \<open>\<^verbatim>\<open>ISR(TIMER3_CAPT_vect)\<close>, with \<open>icr3\<close> the captured count in \<^verbatim>\<open>ICR3\<close>.\<close>

definition ISR :: "u16 \<Rightarrow> state \<Rightarrow> state" where
  "ISR icr3 s =
     (if pulseState s = PLS_WAITING_LOW then
        s\<lparr>pulseStart := icr3, TCCR3B := TCCR3B s AND 0xBF, pulseState := PLS_WAITING_HIGH\<rparr>
      else if pulseState s = PLS_WAITING_HIGH then
        s\<lparr>pulseEnd := icr3, pulseState := PLS_CAPTURED\<rparr>
      else s)"

subsection \<open>The capture unit\<close>

text \<open>
  The routine is entered through the input-capture unit of timer 3, which the sketch
  programmes by the two registers: the unit raises the interrupt while bit 5 of
  \<^verbatim>\<open>TIMSK3\<close> is set (\<^verbatim>\<open>enable the input capture interrupt\<close>), on a rising edge
  of pin 13 while bit 6 of \<^verbatim>\<open>TCCR3B\<close> is set (\<^verbatim>\<open>set to capture the rising edge\<close>)
  and on a falling edge while that bit is clear (\<^verbatim>\<open>now set to capture falling edge\<close>).
  \<open>capture_unit rising icr3\<close> is an edge on the pin at timer count \<open>icr3\<close>.
\<close>

definition capture_unit :: "bool \<Rightarrow> u16 \<Rightarrow> state \<Rightarrow> state" where
  "capture_unit rising icr3 s =
     (if bit (TIMSK3 s) 5 \<and> bit (TCCR3B s) 6 = rising then ISR icr3 s else s)"

subsection \<open>Runs\<close>

text \<open>
  A run interleaves atomic steps in any order: an edge on the echo pin, an execution of
  the interrupt routine however it was caused, the scheduler part of the main loop and
  its consumer part.
\<close>

datatype event =
    is_Edge: Edge (rising: bool) (counted: u16)
  | is_Capture: Capture (captured: u16)
  | is_Schedule: Schedule (scheduled: u32)
  | is_Consume: Consume (consumed: u32)

fun step :: "(real \<Rightarrow> float) \<Rightarrow> event \<Rightarrow> state \<Rightarrow> state" where
  "step rnd (Edge up icr3) s = capture_unit up icr3 s"
| "step rnd (Capture icr3) s = ISR icr3 s"
| "step rnd (Schedule currTime) s = loop_schedule currTime s"
| "step rnd (Consume now) s = loop_consume rnd now s"

fun run :: "(real \<Rightarrow> float) \<Rightarrow> event list \<Rightarrow> state \<Rightarrow> state" where
  "run rnd [] s = s"
| "run rnd (e # es) s = run rnd es (step rnd e s)"

text \<open>Whether an event enters the interrupt routine in a state.\<close>

fun interrupts :: "event \<Rightarrow> state \<Rightarrow> bool" where
  "interrupts (Edge up icr3) s = (bit (TIMSK3 s) 5 \<and> bit (TCCR3B s) 6 = up)"
| "interrupts (Capture icr3) s = True"
| "interrupts (Schedule currTime) s = False"
| "interrupts (Consume now) s = False"

subsection \<open>Observations of a state and of a run\<close>

text \<open>
  The number of pings commanded so far is the number of times the trigger pin has been
  driven high; the number of motor commands is the number of calls of
  \<^verbatim>\<open>setEfforts\<close>.
\<close>

definition pings :: "state \<Rightarrow> nat" where
  "pings s = length (filter (\<lambda>e. e = DigitalWrite trigPin True) (outputs s))"

fun is_SetEfforts :: "effect \<Rightarrow> bool" where
  "is_SetEfforts (SetEfforts l r) = True"
| "is_SetEfforts _ = False"

definition motor_commands :: "state \<Rightarrow> nat" where
  "motor_commands s = length (filter is_SetEfforts (outputs s))"

text \<open>The successor of a state in the cycle of the capture state machine.\<close>

fun cycle_next :: "PULSE_STATE \<Rightarrow> PULSE_STATE" where
  "cycle_next PLS_IDLE = PLS_WAITING_LOW"
| "cycle_next PLS_WAITING_LOW = PLS_WAITING_HIGH"
| "cycle_next PLS_WAITING_HIGH = PLS_CAPTURED"
| "cycle_next PLS_CAPTURED = PLS_IDLE"

text \<open>
  The values of \<open>pulseState\<close> after each step of a run, and the property that each value
  of such a list is the one before it or the successor of the one before it.
\<close>

fun trace :: "(real \<Rightarrow> float) \<Rightarrow> event list \<Rightarrow> state \<Rightarrow> PULSE_STATE list" where
  "trace rnd [] s = []"
| "trace rnd (e # es) s = pulseState (step rnd e s) # trace rnd es (step rnd e s)"

fun follows_cycle :: "PULSE_STATE \<Rightarrow> PULSE_STATE list \<Rightarrow> bool" where
  "follows_cycle p [] = True"
| "follows_cycle p (q # qs) = ((q = p \<or> q = cycle_next p) \<and> follows_cycle q qs)"

text \<open>
  The number of captures that a run completes: its steps from \<open>PLS_WAITING_HIGH\<close> to
  \<open>PLS_CAPTURED\<close>.
\<close>

fun captures :: "(real \<Rightarrow> float) \<Rightarrow> event list \<Rightarrow> state \<Rightarrow> nat" where
  "captures rnd [] s = 0"
| "captures rnd (e # es) s =
     (if pulseState s = PLS_WAITING_HIGH \<and> pulseState (step rnd e s) = PLS_CAPTURED then 1 else 0)
     + captures rnd es (step rnd e s)"

text \<open>
  The clock values at which the scheduler of a run commands a ping, in order, and the
  property that each value of such a list is at least \<open>PING_INTERVAL\<close> past the one before.
\<close>

fun trigger_times :: "(real \<Rightarrow> float) \<Rightarrow> event list \<Rightarrow> state \<Rightarrow> u32 list" where
  "trigger_times rnd [] s = []"
| "trigger_times rnd (Schedule t # es) s =
     (if pings (loop_schedule t s) = pings s then [] else [t]) @
     trigger_times rnd es (loop_schedule t s)"
| "trigger_times rnd (e # es) s = trigger_times rnd es (step rnd e s)"

fun spaced :: "u32 \<Rightarrow> u32 list \<Rightarrow> bool" where
  "spaced p [] = True"
| "spaced p (t # ts) = (PING_INTERVAL \<le> t - p \<and> spaced t ts)"

text \<open>A ping is in flight from the trigger until its capture is complete.\<close>

definition in_flight :: "state \<Rightarrow> nat" where
  "in_flight s =
     (if pulseState s = PLS_WAITING_LOW \<or> pulseState s = PLS_WAITING_HIGH then 1 else 0)"

text \<open>
  \<open>armed\<close> says that the capture unit is set for the edge that \<open>pulseState\<close> waits for:
  the rising edge in \<open>PLS_WAITING_LOW\<close>, the falling edge in \<open>PLS_WAITING_HIGH\<close>.
\<close>

definition armed :: "state \<Rightarrow> bool" where
  "armed s \<longleftrightarrow>
     (pulseState s = PLS_WAITING_LOW \<longrightarrow> bit (TCCR3B s) 6 \<and> bit (TIMSK3 s) 5) \<and>
     (pulseState s = PLS_WAITING_HIGH \<longrightarrow> \<not> bit (TCCR3B s) 6 \<and> bit (TIMSK3 s) 5)"

text \<open>The invariant of the rolling window, in terms of the number of samples consumed.\<close>

definition window_ok :: "state \<Rightarrow> bool" where
  "window_ok s \<longleftrightarrow>
     length (filterValues s) = 5 \<and>
     currIndex s = word_of_nat (motor_commands s mod 5) \<and>
     (\<forall>j<5. motor_commands s \<le> j \<longrightarrow> filterValues s ! j = 0)"

section \<open>Properties\<close>

subsection \<open>What each step does to the observed quantities\<close>

lemma pulseState_CommandPing: "pulseState (CommandPing pin s) = PLS_WAITING_LOW"
  by (simp add: CommandPing_def Let_def)

lemma pulseState_ISR:
  "pulseState (ISR c s) =
     (if pulseState s = PLS_WAITING_LOW then PLS_WAITING_HIGH
      else if pulseState s = PLS_WAITING_HIGH then PLS_CAPTURED else pulseState s)"
  by (simp add: ISR_def)

lemma pulseState_loop_schedule:
  "pulseState (loop_schedule t s) =
     (if PING_INTERVAL \<le> t - lastPing s \<and> pulseState s = PLS_IDLE
      then PLS_WAITING_LOW else pulseState s)"
  by (simp add: loop_schedule_def pulseState_CommandPing)

lemma pulseState_loop_consume:
  "pulseState (loop_consume rnd n s) =
     (if pulseState s = PLS_CAPTURED then PLS_IDLE else pulseState s)"
  by (simp add: loop_consume_def Let_def)

lemma pulseState_capture_unit:
  "pulseState (capture_unit up c s) =
     (if bit (TIMSK3 s) 5 \<and> bit (TCCR3B s) 6 = up then pulseState (ISR c s) else pulseState s)"
  by (simp add: capture_unit_def)

lemmas pulseState_steps =
  pulseState_capture_unit pulseState_ISR pulseState_loop_schedule pulseState_loop_consume

lemma step_cycle:
  "pulseState (step rnd e s) = pulseState s \<or> pulseState (step rnd e s) = cycle_next (pulseState s)"
  by (cases e; cases "pulseState s") (simp_all add: pulseState_steps)

lemma trace_follows_cycle: "follows_cycle (pulseState s) (trace rnd es s)"
  by (induction es arbitrary: s) (simp_all add: step_cycle)

lemma pings_ISR: "pings (ISR c s) = pings s"
  by (simp add: pings_def ISR_def)

lemma pings_loop_consume: "pings (loop_consume rnd n s) = pings s"
  by (simp add: pings_def loop_consume_def Let_def)

lemma pings_loop_schedule:
  "pings (loop_schedule t s) =
     pings s + (if PING_INTERVAL \<le> t - lastPing s \<and> pulseState s = PLS_IDLE then 1 else 0)"
  by (simp add: pings_def loop_schedule_def CommandPing_def Let_def)

lemma pings_capture_unit: "pings (capture_unit up c s) = pings s"
  by (simp add: capture_unit_def pings_ISR)

lemmas pings_steps = pings_capture_unit pings_ISR pings_loop_schedule pings_loop_consume

lemma motor_commands_ISR: "motor_commands (ISR c s) = motor_commands s"
  by (simp add: motor_commands_def ISR_def)

lemma motor_commands_loop_schedule: "motor_commands (loop_schedule t s) = motor_commands s"
  by (simp add: motor_commands_def loop_schedule_def CommandPing_def Let_def)

lemma motor_commands_loop_consume:
  "motor_commands (loop_consume rnd n s) =
     motor_commands s + (if pulseState s = PLS_CAPTURED then 1 else 0)"
  by (simp add: motor_commands_def loop_consume_def Let_def)

lemma motor_commands_capture_unit: "motor_commands (capture_unit up c s) = motor_commands s"
  by (simp add: capture_unit_def motor_commands_ISR)

lemmas motor_commands_steps =
  motor_commands_capture_unit motor_commands_ISR motor_commands_loop_schedule
  motor_commands_loop_consume

lemma lastPing_ISR: "lastPing (ISR c s) = lastPing s"
  by (simp add: ISR_def)

lemma lastPing_loop_consume: "lastPing (loop_consume rnd n s) = lastPing s"
  by (simp add: loop_consume_def Let_def)

lemma lastPing_loop_schedule:
  "lastPing (loop_schedule t s) =
     (if PING_INTERVAL \<le> t - lastPing s \<and> pulseState s = PLS_IDLE then t else lastPing s)"
  by (simp add: loop_schedule_def CommandPing_def Let_def)

lemma lastPing_capture_unit: "lastPing (capture_unit up c s) = lastPing s"
  by (simp add: capture_unit_def lastPing_ISR)

lemmas lastPing_steps =
  lastPing_capture_unit lastPing_ISR lastPing_loop_schedule lastPing_loop_consume

subsection \<open>Pings, captures and motor commands along a run\<close>

lemma pings_trigger_times: "pings (run rnd es s) = pings s + length (trigger_times rnd es s)"
proof (induction es arbitrary: s)
  case Nil
  show ?case by simp
next
  case (Cons e es)
  show ?case
    by (cases e) (simp_all add: Cons.IH pings_steps)
qed

lemma lastPing_trigger_times:
  "lastPing (run rnd es s) = last (lastPing s # trigger_times rnd es s)"
proof (induction es arbitrary: s)
  case Nil
  show ?case by simp
next
  case (Cons e es)
  show ?case
    by (cases e) (simp_all add: Cons.IH pings_steps lastPing_steps)
qed

lemma spaced_trigger_times: "spaced (lastPing s) (trigger_times rnd es s)"
proof (induction es arbitrary: s)
  case Nil
  show ?case by simp
next
  case (Cons e es)
  show ?case
    using Cons.IH [of "step rnd e s"]
    by (cases e) (auto simp: pings_steps lastPing_steps split: if_splits)
qed

lemma triggers_captures:
  "length (trigger_times rnd es s) + in_flight s = captures rnd es s + in_flight (run rnd es s)"
proof (induction es arbitrary: s)
  case Nil
  show ?case by simp
next
  case (Cons e es)
  show ?case
    using Cons.IH [of "step rnd e s"]
    by (cases e; cases "pulseState s")
       (auto simp: in_flight_def pings_steps pulseState_steps split: if_splits)
qed

lemma commands_captures:
  "motor_commands (run rnd es s) + (if pulseState (run rnd es s) = PLS_CAPTURED then 1 else 0)
     = motor_commands s + (if pulseState s = PLS_CAPTURED then 1 else 0) + captures rnd es s"
proof (induction es arbitrary: s)
  case Nil
  show ?case by simp
next
  case (Cons e es)
  show ?case
    using Cons.IH [of "step rnd e s"]
    by (cases e; cases "pulseState s")
       (auto simp: motor_commands_steps pulseState_steps split: if_splits)
qed

lemma elapsed_le:
  assumes "PING_INTERVAL \<le> (p + word_of_nat n) - p"
  shows "100 \<le> n"
proof -
  have "unat (word_of_nat n :: u32) \<le> n"
    by (simp add: unat_of_nat)
  moreover from assms have "100 \<le> unat (word_of_nat n :: u32)"
    by (simp add: PING_INTERVAL_def word_le_nat_alt)
  ultimately show ?thesis by linarith
qed

subsection \<open>The capture unit stays armed for the awaited edge\<close>

lemma bit6_set: "bit ((x::u8) OR 0xC0) 6"
  by (simp add: bit_simps)

lemma bit6_clear: "\<not> bit ((x::u8) AND 0xBF) 6"
  by (simp add: bit_simps)

lemma bit5_set: "bit ((x::u8) OR 0x20) 5"
  by (simp add: bit_simps)

lemma bit5_keep: "bit ((x::u8) AND 0xBF) 5 = bit x 5"
  by (simp add: bit_simps)

lemma bit5_keep2: "bit ((x::u8) OR 0xC0) 5 = bit x 5"
  by (simp add: bit_simps)

lemma armed_step: "armed s \<Longrightarrow> armed (step rnd e s)"
  by (cases e)
     (auto simp: armed_def capture_unit_def ISR_def loop_schedule_def loop_consume_def
        CommandPing_def Let_def bit6_set bit6_clear bit5_set bit5_keep bit5_keep2)

lemma armed_run: "armed s \<Longrightarrow> armed (run rnd es s)"
  by (induction es arbitrary: s) (simp_all add: armed_step)

lemma armed_boot: "armed (setup_fn t0 (boot a b c))"
  by (simp add: armed_def setup_fn_def boot_def)

subsection \<open>The consumer\<close>

lemma quiet_run:
  "PLS_CAPTURED \<notin> set (pulseState s # trace rnd es s) \<Longrightarrow>
     filterValues (run rnd es s) = filterValues s \<and> currIndex (run rnd es s) = currIndex s \<and>
     motor_commands (run rnd es s) = motor_commands s"
proof (induction es arbitrary: s)
  case Nil
  show ?case by simp
next
  case (Cons e es)
  from Cons.prems
  have quiet: "PLS_CAPTURED \<notin> set (pulseState (step rnd e s) # trace rnd es (step rnd e s))"
    and here: "pulseState s \<noteq> PLS_CAPTURED"
    by auto
  from here have "filterValues (step rnd e s) = filterValues s \<and>
      currIndex (step rnd e s) = currIndex s \<and>
      motor_commands (step rnd e s) = motor_commands s"
    by (cases e)
       (simp_all add: capture_unit_def ISR_def loop_schedule_def loop_consume_def
          CommandPing_def Let_def motor_commands_def)
  with Cons.IH [OF quiet] show ?case by simp
qed

lemma after_setup: "in_flight (setup_fn t0 (boot a b c)) = 0" "pings (setup_fn t0 (boot a b c)) = 0"
  "lastPing (setup_fn t0 (boot a b c)) = t0" "motor_commands (setup_fn t0 (boot a b c)) = 0"
  "pulseState (setup_fn t0 (boot a b c)) = PLS_IDLE"
  by (simp_all add: in_flight_def setup_fn_def boot_def pings_def motor_commands_def)

lemma loop_consume_idle: "pulseState s \<noteq> PLS_CAPTURED \<Longrightarrow> loop_consume rnd n s = s"
  by (simp add: loop_consume_def)

lemma loop_consume_twice: "loop_consume rnd n' (loop_consume rnd n s) = loop_consume rnd n s"
proof -
  have "pulseState (loop_consume rnd n s) \<noteq> PLS_CAPTURED"
    by (simp add: pulseState_loop_consume)
  then show ?thesis by (rule loop_consume_idle)
qed

lemma loop_quiet:
  assumes "pulseState s \<noteq> PLS_CAPTURED"
  shows "filterValues (loop rnd t n s) = filterValues s \<and> currIndex (loop rnd t n s) = currIndex s \<and>
         motor_commands (loop rnd t n s) = motor_commands s"
proof -
  from assms have "pulseState (loop_schedule t s) \<noteq> PLS_CAPTURED"
    by (simp add: pulseState_loop_schedule)
  then have "loop rnd t n s = loop_schedule t s"
    by (simp add: loop_def loop_consume_idle)
  then show ?thesis
    by (simp add: loop_schedule_def CommandPing_def Let_def motor_commands_def)
qed

subsection \<open>The rolling window\<close>

lemma next_index_mod5: "next_index (word_of_nat (k mod 5)) = word_of_nat (Suc k mod 5)"
proof -
  have "k mod 5 = 0 \<or> k mod 5 = 1 \<or> k mod 5 = 2 \<or> k mod 5 = 3 \<or> k mod 5 = 4"
    by linarith
  then show ?thesis
    by (auto simp: next_index_def mod_Suc)
qed

lemma sint_index: "sint (word_of_nat (k mod 5) :: int16) = int (k mod 5)"
proof -
  have "k mod 5 = 0 \<or> k mod 5 = 1 \<or> k mod 5 = 2 \<or> k mod 5 = 3 \<or> k mod 5 = 4"
    by linarith
  then show ?thesis by auto
qed

lemma next_index_range:
  assumes "0 \<le> sint i" "sint i \<le> 4"
  shows "sint (next_index i) = (sint i + 1) mod 5"
proof -
  have "i = word_of_int (sint i)" by simp
  from assms have "sint i = 0 \<or> sint i = 1 \<or> sint i = 2 \<or> sint i = 3 \<or> sint i = 4"
    by linarith
  then have "i = 0 \<or> i = 1 \<or> i = 2 \<or> i = 3 \<or> i = 4"
    by (metis \<open>i = word_of_int (sint i)\<close> word_of_int_0 word_of_int_1 word_of_int_numeral)
  then show ?thesis
    by (auto simp: next_index_def)
qed

lemma window_ok_consume:
  assumes "window_ok s"
  shows "window_ok (loop_consume rnd n s)"
proof (cases "pulseState s = PLS_CAPTURED")
  case False
  with assms show ?thesis by (simp add: loop_consume_def)
next
  case True
  let ?k = "motor_commands s"
  from assms have len: "length (filterValues s) = 5"
    and idx: "currIndex s = word_of_nat (?k mod 5)"
    and zero: "\<And>j. j < 5 \<Longrightarrow> ?k \<le> j \<Longrightarrow> filterValues s ! j = 0"
    by (simp_all add: window_ok_def)
  have mc: "motor_commands (loop_consume rnd n s) = Suc ?k"
    using True by (simp add: motor_commands_loop_consume)
  have fv: "filterValues (loop_consume rnd n s) =
      (filterValues s)[?k mod 5 := pulseLengthUS (pulseEnd s - pulseStart s)]"
    using True by (simp add: loop_consume_def Let_def idx sint_index pulseLengthTimerCounts_def)
  have ci: "currIndex (loop_consume rnd n s) = word_of_nat (Suc ?k mod 5)"
    using True by (simp add: loop_consume_def Let_def idx next_index_mod5)
  have "filterValues (loop_consume rnd n s) ! j = 0" if "j < 5" "Suc ?k \<le> j" for j
  proof -
    from that have "?k mod 5 = ?k" "?k \<noteq> j" by simp_all
    with that zero [of j] show ?thesis by (simp add: fv)
  qed
  then show ?thesis
    by (simp add: window_ok_def mc ci) (simp add: fv len)
qed

lemma window_ok_step: "window_ok s \<Longrightarrow> window_ok (step rnd e s)"
proof (cases e)
  case (Consume n)
  assume "window_ok s"
  then show ?thesis by (simp add: Consume window_ok_consume)
next
  case (Capture c)
  assume "window_ok s"
  then show ?thesis by (simp add: Capture window_ok_def ISR_def motor_commands_def)
next
  case (Edge up c)
  assume "window_ok s"
  then show ?thesis
    by (simp add: Edge window_ok_def capture_unit_def ISR_def motor_commands_def)
next
  case (Schedule t)
  assume "window_ok s"
  then show ?thesis
    by (simp add: Schedule window_ok_def loop_schedule_def CommandPing_def Let_def motor_commands_def)
qed

lemma window_ok_run: "window_ok s \<Longrightarrow> window_ok (run rnd es s)"
  by (induction es arbitrary: s) (simp_all add: window_ok_step)

lemma zeros_nth: "j < 5 \<Longrightarrow> [0, 0, 0, 0, 0 :: u32] ! j = 0"
  by (simp add: nth_Cons split: nat.splits)

lemma window_ok_boot: "window_ok (setup_fn t0 (boot a b c))"
  by (simp add: window_ok_def setup_fn_def boot_def motor_commands_def zeros_nth)

subsection \<open>The pulse length in microseconds\<close>

text \<open>
  The product by 4 is taken in 16 bits: it is the number of microseconds for a pulse of
  fewer than 16384 counts and wraps around from there on.
\<close>

lemma pulseLengthUS_exact:
  assumes "counts < 16384"
  shows "unat (pulseLengthUS counts) = 4 * unat counts"
proof -
  from assms have "unat counts < 16384"
    by (simp add: word_less_nat_alt)
  then have "unat (counts * 4) = 4 * unat counts"
    by (simp add: unat_word_ariths)
  moreover have "unat (ucast (counts * 4) :: u32) = take_bit 32 (unat (counts * 4))"
    by (simp add: unsigned_ucast_eq)
  moreover have "unat (counts * 4) < 2 ^ 32"
    using unsigned_less [of "counts * 4", where ?'a = nat] by simp
  ultimately show ?thesis
    by (simp add: pulseLengthUS_def take_bit_nat_eq_self)
qed

lemma pulseLengthUS_wraps: "pulseLengthUS 16384 = 0" "pulseLengthUS 20000 = 14464"
  by (simp_all add: pulseLengthUS_def)

subsection \<open>Rounding\<close>

lemma fp_rounding_id: "fp_rounding (\<lambda>x. x)"
  by (simp add: fp_rounding_def)

lemma fp_mono: "fp_rounding rnd \<Longrightarrow> x \<le> y \<Longrightarrow> rnd x \<le> rnd y"
  by (simp add: fp_rounding_def)

lemma fp_exact_int:
  assumes "fp_rounding rnd" "\<bar>m\<bar> < 2 ^ 24"
  shows "rnd (real_of_int m) = real_of_int m"
proof -
  have "binary32 (real_of_int m)"
    unfolding binary32_def using assms(2)
    by (intro exI [of _ m] exI [of _ "0::nat"]) simp
  with assms(1) show ?thesis by (simp add: fp_rounding_def)
qed

lemma fp_exact_dyadic:
  assumes "fp_rounding rnd" "\<bar>m\<bar> < 2 ^ 24" "k \<le> 149"
  shows "rnd (real_of_int m / 2 ^ k) = real_of_int m / 2 ^ k"
proof -
  have "binary32 (real_of_int m / 2 ^ k)"
    unfolding binary32_def using assms(2,3)
    by (intro exI [of _ m] exI [of _ k]) simp
  with assms(1) show ?thesis by (simp add: fp_rounding_def)
qed

lemma fp_exact_numeral:
  assumes "fp_rounding rnd" "(numeral w :: int) < 2 ^ 24"
  shows "rnd (numeral w) = numeral w"
  using fp_exact_int [OF assms(1), of "numeral w"] assms(2) by simp

lemma fp_exact_0: "fp_rounding rnd \<Longrightarrow> rnd 0 = 0"
  using fp_exact_int [of rnd 0] by simp

lemma fp_exact_1: "fp_rounding rnd \<Longrightarrow> rnd 1 = 1"
  using fp_exact_int [of rnd 1] by simp

lemma fp_exact_neg_numeral:
  assumes "fp_rounding rnd" "(numeral w :: int) < 2 ^ 24"
  shows "rnd (- numeral w) = - numeral w"
  using fp_exact_int [OF assms(1), of "- numeral w"] assms(2) by simp

lemma abs_macro_abs: "abs_macro x = \<bar>x\<bar>"
  by (simp add: abs_macro_def)

lemma speed_of_err_deadband:
  assumes "fp_rounding rnd" "\<bar>err\<bar> \<le> 1 / 2"
  shows "speed_of_err rnd err = 0"
proof -
  from assms(2) have "- 5 \<le> kp * err" "kp * err \<le> 5"
    by (simp_all add: kp_def abs_le_iff)
  then have "rnd (- 5) \<le> rnd (kp * err)" "rnd (kp * err) \<le> rnd 5"
    using assms(1) by (simp_all add: fp_mono)
  then have "\<bar>rnd (kp * err)\<bar> \<le> 5"
    using assms(1) by (simp add: fp_exact_numeral fp_exact_neg_numeral abs_le_iff)
  then show ?thesis
    by (simp add: speed_of_err_def fmul_def abs_macro_abs Let_def)
qed

lemma distance_bounds:
  assumes "fp_rounding rnd"
  shows "35310 / 1024 \<le> distancePulse rnd 2000" "distancePulse rnd 2000 \<le> 35311 / 1024"
proof -
  have d: "distancePulse rnd 2000 = rnd (2000 / 58)"
    using assms by (simp add: distancePulse_def fdiv_def float_of_u32_def fp_exact_numeral)
  have lo: "real_of_int 35310 / 2 ^ 10 \<le> 2000 / 58"
    by simp
  have hi: "(2000::real) / 58 \<le> real_of_int 35311 / 2 ^ 10"
    by simp
  from fp_mono [OF assms lo] show "35310 / 1024 \<le> distancePulse rnd 2000"
    using fp_exact_dyadic [OF assms, of 35310 10] by (simp add: d)
  from fp_mono [OF assms hi] show "distancePulse rnd 2000 \<le> 35311 / 1024"
    using fp_exact_dyadic [OF assms, of 35311 10] by (simp add: d)
qed

subsection \<open>Mean and median\<close>

lemma mean_example:
  assumes "fp_rounding rnd"
  shows "mean rnd [100, 100, 100, 100, 500] = 180"
  using assms by (simp add: mean_def fdiv_def float_of_u32_def u32_of_float_def fp_exact_numeral)

lemma median_example: "median [100, 100, 100, 100, 500] = (100, [100, 100, 100, 100, 500])"
  by (simp add: median_def qsort_def cmpfunc_def)

lemma cmpfunc_wi: "cmpfunc x y = word_of_int (uint x - uint y)"
proof -
  have "x - y = word_of_int (uint x - uint y)"
    by (rule word_sub_wi)
  then have "cmpfunc x y = ucast (word_of_int (uint x - uint y) :: u32)"
    by (simp only: cmpfunc_def)
  also have "\<dots> = word_of_int (uint x - uint y)"
    by (rule ucast_down_wi) (simp add: is_down)
  finally show ?thesis .
qed

lemma cmpfunc_small:
  assumes "x < 2 ^ 15" "y < 2 ^ 15"
  shows "sint (cmpfunc x y) = uint x - uint y"
proof -
  from assms have "uint x < 2 ^ 15" "uint y < 2 ^ 15"
    by (simp_all add: word_less_def)
  moreover have "0 \<le> uint x" "0 \<le> uint y" by simp_all
  ultimately have "- (2 ^ 15) \<le> uint x - uint y" "uint x - uint y < 2 ^ 15"
    by linarith+
  then have "signed_take_bit 15 (uint x - uint y) = uint x - uint y"
    by (rule signed_take_bit_int_eq_self)
  then show ?thesis
    by (simp only: cmpfunc_wi sint_sbintrunc') simp
qed

lemma cmpfunc_le:
  assumes "x < 2 ^ 15" "y < 2 ^ 15"
  shows "sint (cmpfunc x y) \<le> 0 \<longleftrightarrow> x \<le> y"
  by (simp add: cmpfunc_small [OF assms] word_le_def)

lemma mset_qsort_insert: "mset (qsort_insert cmp x ys) = add_mset x (mset ys)"
  by (induction ys) simp_all

lemma mset_qsort_list: "mset (qsort_list cmp xs) = mset xs"
  by (induction xs) (simp_all add: mset_qsort_insert)

lemma qsort_insert_insort:
  assumes "x < 2 ^ 15" "\<forall>y\<in>set ys. y < 2 ^ 15"
  shows "qsort_insert cmpfunc x ys = insort x ys"
  using assms(2) by (induction ys) (simp_all add: cmpfunc_le [OF assms(1)])

lemma qsort_list_sort:
  assumes "\<forall>x\<in>set xs. x < 2 ^ 15"
  shows "qsort_list cmpfunc xs = sort xs"
  using assms
proof (induction xs)
  case Nil
  show ?case by simp
next
  case (Cons x xs)
  then have "qsort_list cmpfunc xs = sort xs" by simp
  moreover from Cons.prems have "\<forall>y\<in>set (sort xs). y < 2 ^ 15" by simp
  ultimately show ?case
    using Cons.prems by (simp add: qsort_insert_insort)
qed

text \<open>The definitions that evaluate the consumer on a given state.\<close>

lemmas consume_defs =
  boot_def loop_consume_def Let_def pulseLengthTimerCounts_def pulseLengthUS_def
  next_index_def filteredDistance_def distancePulse_def mean_def fdiv_def float_of_u32_def
  u32_of_float_def controller_def speed_of_err_def fsub_def fmul_def kp_def abs_macro_def

subsection \<open>The claims\<close>

text \<open>
  C1. Along every run, whatever events arrive in whatever order, each step leaves
  \<open>pulseState\<close> where it is or moves it to its successor in the cycle
  \<open>PLS_IDLE\<close>, \<open>PLS_WAITING_LOW\<close>, \<open>PLS_WAITING_HIGH\<close>, \<open>PLS_CAPTURED\<close>, \<open>PLS_IDLE\<close>.
  The step from \<open>PLS_IDLE\<close> is taken by the scheduler when a ping is due, the two steps
  out of the waiting states by the interrupt routine, and the step from \<open>PLS_CAPTURED\<close>
  by the consumer; no other event moves the state. In every state reached after
  \<^verbatim>\<open>setup()\<close>, a rising edge enters the interrupt routine and a falling edge is ignored
  while the state is \<open>PLS_WAITING_LOW\<close>, and a falling edge enters it and a rising edge is
  ignored while the state is \<open>PLS_WAITING_HIGH\<close>.
\<close>

theorem pulse_state_cycle:
  "follows_cycle (pulseState s) (trace rnd es s) \<and>
   pulseState (step rnd e s) =
     (if pulseState s = PLS_IDLE \<and> is_Schedule e \<and> PING_INTERVAL \<le> scheduled e - lastPing s
        then PLS_WAITING_LOW
      else if pulseState s = PLS_WAITING_LOW \<and> interrupts e s then PLS_WAITING_HIGH
      else if pulseState s = PLS_WAITING_HIGH \<and> interrupts e s then PLS_CAPTURED
      else if pulseState s = PLS_CAPTURED \<and> is_Consume e then PLS_IDLE
      else pulseState s) \<and>
   (let r = run rnd es (setup_fn t0 (boot tifr3 timsk3 tccr3b)) in
      (pulseState r = PLS_WAITING_LOW \<longrightarrow>
         step rnd (Edge True c) r = ISR c r \<and> step rnd (Edge False c) r = r) \<and>
      (pulseState r = PLS_WAITING_HIGH \<longrightarrow>
         step rnd (Edge False c) r = ISR c r \<and> step rnd (Edge True c) r = r))"
proof -
  let ?r = "run rnd es (setup_fn t0 (boot tifr3 timsk3 tccr3b))"
  have "pulseState (step rnd e s) =
     (if pulseState s = PLS_IDLE \<and> is_Schedule e \<and> PING_INTERVAL \<le> scheduled e - lastPing s
        then PLS_WAITING_LOW
      else if pulseState s = PLS_WAITING_LOW \<and> interrupts e s then PLS_WAITING_HIGH
      else if pulseState s = PLS_WAITING_HIGH \<and> interrupts e s then PLS_CAPTURED
      else if pulseState s = PLS_CAPTURED \<and> is_Consume e then PLS_IDLE
      else pulseState s)"
    by (cases e; cases "pulseState s") (simp_all add: pulseState_steps)
  moreover have "armed ?r"
    by (rule armed_run [OF armed_boot])
  then have "(pulseState ?r = PLS_WAITING_LOW \<longrightarrow>
         step rnd (Edge True c) ?r = ISR c ?r \<and> step rnd (Edge False c) ?r = ?r) \<and>
      (pulseState ?r = PLS_WAITING_HIGH \<longrightarrow>
         step rnd (Edge False c) ?r = ISR c ?r \<and> step rnd (Edge True c) ?r = ?r)"
    by (simp add: armed_def capture_unit_def)
  ultimately show ?thesis
    by (simp only: trace_follows_cycle Let_def simp_thms)
qed

theorem pulse_state_cycle_witness:
  "trace (\<lambda>x. x) [Schedule 100, Edge False 65400, Edge True 65500, Edge True 7, Edge False 100,
       Capture 101, Consume 130] (setup_fn 0 (boot 0 0 3))
     = [PLS_WAITING_LOW, PLS_WAITING_LOW, PLS_WAITING_HIGH, PLS_WAITING_HIGH, PLS_CAPTURED,
        PLS_CAPTURED, PLS_IDLE] \<and>
   pulseState (run (\<lambda>x. x) [Schedule 100] (setup_fn 0 (boot 0 0 3))) = PLS_WAITING_LOW \<and>
   pulseState (step (\<lambda>x. x) (Edge True 65500)
      (run (\<lambda>x. x) [Schedule 100] (setup_fn 0 (boot 0 0 3)))) = PLS_WAITING_HIGH \<and>
   pulseState (step (\<lambda>x. x) (Edge False 65500)
      (run (\<lambda>x. x) [Schedule 100] (setup_fn 0 (boot 0 0 3)))) = PLS_WAITING_LOW \<and>
   pulseState (step (\<lambda>x. x) (Edge False 100)
      (run (\<lambda>x. x) [Schedule 100, Capture 65500] (setup_fn 0 (boot 0 0 3)))) = PLS_CAPTURED \<and>
   pulseState (step (\<lambda>x. x) (Edge True 100)
      (run (\<lambda>x. x) [Schedule 100, Capture 65500] (setup_fn 0 (boot 0 0 3)))) = PLS_WAITING_HIGH"
proof -
  let ?s0 = "setup_fn 0 (boot 0 0 3)"
  let ?es = "[Schedule 100, Edge False 65400, Edge True 65500, Edge True 7, Edge False 100,
       Capture 101, Consume 130]"
  let ?r = "run (\<lambda>x. x) [Schedule 100] ?s0"
  note w = pulse_state_cycle [of ?s0 "\<lambda>x. x" "[Schedule 100]" "Schedule 100" 0 0 0 3 65500]
  have t: "trace (\<lambda>x. x) ?es ?s0
     = [PLS_WAITING_LOW, PLS_WAITING_LOW, PLS_WAITING_HIGH, PLS_WAITING_HIGH, PLS_CAPTURED,
        PLS_CAPTURED, PLS_IDLE]"
    by (simp add: capture_unit_def ISR_def loop_schedule_def loop_consume_def CommandPing_def
          Let_def setup_fn_def boot_def PING_INTERVAL_def bit6_set bit6_clear bit5_set)
  have p: "pulseState ?r = PLS_WAITING_LOW"
    by (simp add: pulseState_steps after_setup PING_INTERVAL_def)
  from w p have "step (\<lambda>x. x) (Edge True 65500) ?r = ISR 65500 ?r"
    and f: "step (\<lambda>x. x) (Edge False 65500) ?r = ?r"
    unfolding Let_def by blast+
  then have g: "pulseState (step (\<lambda>x. x) (Edge True 65500) ?r) = PLS_WAITING_HIGH"
    by (simp only: pulseState_ISR p) simp
  let ?q = "run (\<lambda>x. x) [Schedule 100, Capture 65500] ?s0"
  note v = pulse_state_cycle [of ?s0 "\<lambda>x. x" "[Schedule 100, Capture 65500]" "Schedule 100"
      0 0 0 3 100]
  have q: "pulseState ?q = PLS_WAITING_HIGH"
    by (simp add: pulseState_steps after_setup PING_INTERVAL_def)
  from v q have "step (\<lambda>x. x) (Edge False 100) ?q = ISR 100 ?q"
    and h: "step (\<lambda>x. x) (Edge True 100) ?q = ?q"
    unfolding Let_def by blast+
  then have k: "pulseState (step (\<lambda>x. x) (Edge False 100) ?q) = PLS_CAPTURED"
    by (simp only: pulseState_ISR q) simp
  from t p f g k show ?thesis
    unfolding h q by (simp only: simp_thms)
qed

text \<open>
  C2. The scheduler commands a ping only when \<open>pulseState\<close> is \<open>PLS_IDLE\<close> and the
  millisecond clock has advanced by at least \<open>PING_INTERVAL\<close> = 100 since \<open>lastPing\<close>
  (taken modulo \<open>2 ^ 32\<close>, so whatever number of milliseconds has really elapsed, it is at
  least 100); it then sets \<open>lastPing\<close> to the current time, and \<open>lastPing\<close> is written by
  nothing else. No event other than the scheduler commands a ping or writes \<open>lastPing\<close>.
  In every
  run after \<^verbatim>\<open>setup()\<close>, \<open>lastPing\<close> is the time of the last ping (or of
  \<^verbatim>\<open>setup()\<close>), successive pings are at least 100 ms apart, and the number of pings equals
  the number of completed captures plus the one in flight, hence never exceeds the number
  of completed captures plus one.
\<close>

theorem ping_only_when_idle_and_due:
  "(pings (loop_schedule t s) \<noteq> pings s \<longrightarrow>
      pulseState s = PLS_IDLE \<and> PING_INTERVAL \<le> t - lastPing s \<and>
      (\<forall>n. t = lastPing s + word_of_nat n \<longrightarrow> 100 \<le> n) \<and>
      pings (loop_schedule t s) = pings s + 1 \<and> lastPing (loop_schedule t s) = t) \<and>
   (pings (loop_schedule t s) = pings s \<longrightarrow> lastPing (loop_schedule t s) = lastPing s) \<and>
   (is_Schedule e \<or> pings (step rnd e s) = pings s \<and> lastPing (step rnd e s) = lastPing s) \<and>
   (let s0 = setup_fn t0 (boot tifr3 timsk3 tccr3b) in
      pings (run rnd es s0) = length (trigger_times rnd es s0) \<and>
      lastPing (run rnd es s0) = last (t0 # trigger_times rnd es s0) \<and>
      spaced t0 (trigger_times rnd es s0) \<and>
      pings (run rnd es s0) = captures rnd es s0 + in_flight (run rnd es s0) \<and>
      pings (run rnd es s0) \<le> captures rnd es s0 + 1)"
proof -
  let ?s0 = "setup_fn t0 (boot tifr3 timsk3 tccr3b)"
  have fire: "pings (loop_schedule t s) \<noteq> pings s \<longrightarrow>
      pulseState s = PLS_IDLE \<and> PING_INTERVAL \<le> t - lastPing s \<and>
      (\<forall>n. t = lastPing s + word_of_nat n \<longrightarrow> 100 \<le> n) \<and>
      pings (loop_schedule t s) = pings s + 1 \<and> lastPing (loop_schedule t s) = t"
    using elapsed_le [of "lastPing s"]
    by (auto simp: pings_steps lastPing_steps split: if_splits)
  have idle: "pings (loop_schedule t s) = pings s \<longrightarrow> lastPing (loop_schedule t s) = lastPing s"
    by (simp add: pings_steps lastPing_steps)
  have other: "is_Schedule e \<or>
      pings (step rnd e s) = pings s \<and> lastPing (step rnd e s) = lastPing s"
    by (cases e) (simp_all add: pings_steps lastPing_steps)
  have count: "pings (run rnd es ?s0) = length (trigger_times rnd es ?s0)"
    by (simp add: pings_trigger_times after_setup)
  have last: "lastPing (run rnd es ?s0) = last (t0 # trigger_times rnd es ?s0)"
    using lastPing_trigger_times [of rnd es ?s0] by (simp only: after_setup)
  have sp: "spaced t0 (trigger_times rnd es ?s0)"
    using spaced_trigger_times [of ?s0 rnd es] by (simp only: after_setup)
  have bal: "pings (run rnd es ?s0) = captures rnd es ?s0 + in_flight (run rnd es ?s0)"
    using triggers_captures [of rnd es ?s0] by (simp add: count after_setup)
  have "in_flight (run rnd es ?s0) \<le> 1"
    by (simp add: in_flight_def)
  with bal have le: "pings (run rnd es ?s0) \<le> captures rnd es ?s0 + 1"
    by linarith
  show ?thesis
    using fire idle other count last sp bal le
    by (simp only: Let_def simp_thms)
qed

theorem ping_only_when_idle_and_due_witness:
  "pings (loop_schedule 100 (setup_fn 0 (boot 0 0 3))) = 1 \<and>
   lastPing (loop_schedule 100 (setup_fn 0 (boot 0 0 3))) = 100 \<and>
   pings (loop_schedule 99 (setup_fn 0 (boot 0 0 3))) = 0 \<and>
   lastPing (loop_schedule 99 (setup_fn 0 (boot 0 0 3))) = 0 \<and>
   trigger_times (\<lambda>x. x)
      [Schedule 100, Capture 65500, Capture 100, Consume 130, Schedule 150, Schedule 230]
      (setup_fn 0 (boot 0 0 3)) = [100, 230] \<and>
   captures (\<lambda>x. x)
      [Schedule 100, Capture 65500, Capture 100, Consume 130, Schedule 150, Schedule 230]
      (setup_fn 0 (boot 0 0 3)) = 1 \<and>
   pings (run (\<lambda>x. x)
      [Schedule 100, Capture 65500, Capture 100, Consume 130, Schedule 150, Schedule 230]
      (setup_fn 0 (boot 0 0 3))) = 2"
proof -
  let ?s0 = "setup_fn 0 (boot 0 0 3)"
  let ?es = "[Schedule 100, Capture 65500, Capture 100, Consume 130, Schedule 150, Schedule 230]"
  have a: "pings (loop_schedule 100 ?s0) = 1"
    by (simp add: pings_steps after_setup PING_INTERVAL_def)
  have b: "trigger_times (\<lambda>x. x) ?es ?s0 = [100, 230]"
    by (simp add: pings_steps pulseState_steps lastPing_steps after_setup PING_INTERVAL_def)
  have c: "captures (\<lambda>x. x) ?es ?s0 = 1"
    by (simp add: pulseState_steps lastPing_steps after_setup PING_INTERVAL_def)
  have d: "pings (run (\<lambda>x. x) ?es ?s0) = length (trigger_times (\<lambda>x. x) ?es ?s0)"
    using ping_only_when_idle_and_due [of 100 ?s0 "Capture 7" "\<lambda>x. x" 0 0 0 3 ?es]
    unfolding Let_def by blast
  have a': "pings (loop_schedule 99 ?s0) = 0"
    by (simp add: pings_steps after_setup PING_INTERVAL_def)
  have z: "pings ?s0 = 0" "lastPing ?s0 = 0"
    by (simp_all add: after_setup)
  from ping_only_when_idle_and_due [of 100 ?s0 "Capture 7" "\<lambda>x. x" 0 0 0 3 ?es] a z
  have l: "lastPing (loop_schedule 100 ?s0) = 100"
    by simp
  from ping_only_when_idle_and_due [of 99 ?s0 "Capture 7" "\<lambda>x. x" 0 0 0 3 ?es] a' z
  have l': "lastPing (loop_schedule 99 ?s0) = 0"
    by simp
  show ?thesis
    unfolding d b c by (simp add: a a' l l')
qed

text \<open>
  C3. The pulse length is the 16-bit difference \<open>pulseEnd - pulseStart\<close>. A start count
  of 65500 and an end count of 100 give 136. Whenever the counter advances by \<open>d < 65536\<close>
  counts between the two captures, rollover or not, the computed length is \<open>d\<close>.
\<close>

theorem pulse_length_wraparound:
  "pulseLengthTimerCounts s = pulseEnd s - pulseStart s \<and>
   pulseLengthTimerCounts (s\<lparr>pulseStart := 65500, pulseEnd := 100\<rparr>) = 136 \<and>
   (pulseState s = PLS_WAITING_LOW \<and> d < 65536 \<longrightarrow>
      unat (pulseLengthTimerCounts (ISR (c + word_of_nat d) (ISR c s))) = d)"
proof -
  have "unat (word_of_nat d :: u16) = d" if "d < 65536"
    using that by (simp add: unat_of_nat)
  then show ?thesis
    by (simp add: pulseLengthTimerCounts_def ISR_def)
qed

theorem pulse_length_wraparound_witness:
  "pulseLengthTimerCounts
     (ISR 100 (ISR 65500 (loop_schedule 100 (setup_fn 0 (boot 0 0 3))))) = 136 \<and>
   (65500 :: u16) + word_of_nat 136 = 100"
proof -
  have p: "pulseState (loop_schedule 100 (setup_fn 0 (boot 0 0 3))) = PLS_WAITING_LOW"
    by (simp add: pulseState_steps after_setup PING_INTERVAL_def)
  have e: "(65500 :: u16) + word_of_nat 136 = 100"
    by simp
  have "unat (pulseLengthTimerCounts
     (ISR (65500 + word_of_nat 136)
        (ISR 65500 (loop_schedule 100 (setup_fn 0 (boot 0 0 3)))))) = 136"
    using pulse_length_wraparound [of "loop_schedule 100 (setup_fn 0 (boot 0 0 3))" 136 65500] p
    by simp
  then have "unat (pulseLengthTimerCounts
     (ISR 100 (ISR 65500 (loop_schedule 100 (setup_fn 0 (boot 0 0 3)))))) = unat (136 :: u16)"
    unfolding e by simp
  then have "pulseLengthTimerCounts
     (ISR 100 (ISR 65500 (loop_schedule 100 (setup_fn 0 (boot 0 0 3))))) = 136"
    by (simp only: word_unat_eq_iff)
  with e show ?thesis by blast
qed

text \<open>
  C4. With \<open>kp\<close> = 10 the speed computed for a filtered distance \<open>d\<close> is
  \<open>kp * (d - 20)\<close>, each of the two operations rounded to a float, and it is replaced by
  0 when its absolute value is at most 5; without rounding error it is exactly
  \<open>kp * (d - 20)\<close> outside the dead band. An error of 0 gives 0. An error of 0.3 gives the
  product 3, which the dead band turns into 0, as it does for every error of magnitude at
  most one half. An error of 1 gives 10, which is outside the dead band and is the value
  passed in both arguments of \<^verbatim>\<open>motors.setEfforts\<close>; what that library does with its
  arguments is outside the repository.
\<close>

theorem controller_deadband:
  assumes "fp_rounding rnd"
  shows "kp = 10 \<and>
    controller rnd d =
      (let speed = rnd (kp * rnd (d - 20)) in if \<bar>speed\<bar> \<le> 5 then 0 else speed) \<and>
    controller (\<lambda>x. x) d = (if \<bar>kp * (d - 20)\<bar> \<le> 5 then 0 else kp * (d - 20)) \<and>
    speed_of_err rnd 0 = 0 \<and>
    fmul rnd kp (3 / 10) = 3 \<and> speed_of_err rnd (3 / 10) = 0 \<and>
    (\<bar>err\<bar> \<le> 1 / 2 \<longrightarrow> speed_of_err rnd err = 0) \<and>
    fmul rnd kp 1 = 10 \<and> speed_of_err rnd 1 = 10 \<and>
    controller rnd 20 = 0 \<and> controller rnd 21 = 10 \<and>
    (pulseState s = PLS_CAPTURED \<longrightarrow>
       outputs (loop_consume rnd n s) ! length (outputs s) =
         SetEfforts (controller rnd (filteredDistance rnd (filterValues (loop_consume rnd n s))))
                    (controller rnd (filteredDistance rnd (filterValues (loop_consume rnd n s)))))"
proof -
  note ex = fp_exact_numeral [OF assms] fp_exact_0 [OF assms] fp_exact_1 [OF assms]
  have formula: "controller rnd d =
      (let speed = rnd (kp * rnd (d - 20)) in if \<bar>speed\<bar> \<le> 5 then 0 else speed)"
    by (simp add: controller_def speed_of_err_def fmul_def fsub_def abs_macro_abs)
  have ideal: "controller (\<lambda>x. x) d = (if \<bar>kp * (d - 20)\<bar> \<le> 5 then 0 else kp * (d - 20))"
    by (simp add: controller_def speed_of_err_def fmul_def fsub_def abs_macro_abs)
  have e0: "speed_of_err rnd 0 = 0"
    by (simp add: speed_of_err_def fmul_def abs_macro_abs ex)
  have m3: "fmul rnd kp (3 / 10) = 3"
    by (simp add: fmul_def kp_def ex)
  have band: "speed_of_err rnd e = 0" if "\<bar>e\<bar> \<le> 1 / 2" for e
    using assms that by (rule speed_of_err_deadband)
  have e3: "speed_of_err rnd (3 / 10) = 0"
    by (rule band) simp
  have m1: "fmul rnd kp 1 = 10"
    by (simp add: fmul_def kp_def ex)
  have e1: "speed_of_err rnd 1 = 10"
    using m1 by (simp add: speed_of_err_def abs_macro_abs)
  have c20: "controller rnd 20 = 0"
    by (simp add: controller_def fsub_def ex e0)
  have c21: "controller rnd 21 = 10"
    by (simp add: controller_def fsub_def ex e1)
  have fwd: "outputs (loop_consume rnd n s) ! length (outputs s) =
         SetEfforts (controller rnd (filteredDistance rnd (filterValues (loop_consume rnd n s))))
                    (controller rnd (filteredDistance rnd (filterValues (loop_consume rnd n s))))"
    if "pulseState s = PLS_CAPTURED"
    using that by (simp add: loop_consume_def Let_def)
  from formula ideal e0 m3 e3 band m1 e1 c20 c21 fwd show ?thesis
    by (simp add: kp_def)
qed

theorem controller_deadband_witness:
  "fp_rounding (\<lambda>x. x) \<and>
   controller (\<lambda>x. x) (203 / 10) = 0 \<and> controller (\<lambda>x. x) 21 = 10 \<and>
   controller (\<lambda>x. x) 19 = - 10 \<and> controller (\<lambda>x. x) (41 / 2) = 0 \<and>
   speed_of_err (\<lambda>x. x) (3 / 10) = 0 \<and>
   outputs (loop_consume (\<lambda>x. x) 7
     ((boot 0 0 3)\<lparr>pulseState := PLS_CAPTURED, pulseStart := 1000, pulseEnd := 1500\<rparr>)) ! 0
     = SetEfforts (- (3800 / 29)) (- (3800 / 29))"
proof -
  let ?s = "(boot 0 0 3)\<lparr>pulseState := PLS_CAPTURED, pulseStart := 1000, pulseEnd := 1500\<rparr>"
  note w = controller_deadband [OF fp_rounding_id]
  have a: "controller (\<lambda>x. x) (203 / 10) = 0"
    using w [of "203 / 10" 0 ?s 7] by (simp add: kp_def)
  have b: "controller (\<lambda>x. x) 19 = - 10"
    using w [of 19 0 ?s 7] by (simp add: kp_def)
  have c: "controller (\<lambda>x. x) (41 / 2) = 0"
    using w [of "41 / 2" 0 ?s 7] by (simp add: kp_def)
  have s: "pulseState ?s = PLS_CAPTURED" "length (outputs ?s) = 0"
    by (simp_all add: boot_def)
  have fv: "filterValues (loop_consume (\<lambda>x. x) 7 ?s) = [2000, 0, 0, 0, 0]"
    by (simp add: consume_defs)
  have fd: "filteredDistance (\<lambda>x. x) [2000, 0, 0, 0, 0] = 200 / 29"
    by (simp add: consume_defs)
  have "controller (\<lambda>x. x) (200 / 29) = - (3800 / 29)"
    using w [of "200 / 29" 0 ?s 7] by (simp add: kp_def)
  moreover from w [of 21 "3 / 10" ?s 7] s
  have "outputs (loop_consume (\<lambda>x. x) 7 ?s) ! 0 =
      SetEfforts (controller (\<lambda>x. x) (200 / 29)) (controller (\<lambda>x. x) (200 / 29))"
    unfolding fv fd by simp
  ultimately have d: "outputs (loop_consume (\<lambda>x. x) 7 ?s) ! 0
      = SetEfforts (- (3800 / 29)) (- (3800 / 29))"
    by simp
  from w [of 21 "3 / 10" ?s 7] a b c d fp_rounding_id show ?thesis
    by blast
qed

text \<open>
  C5. On the window 100, 100, 100, 100, 500 \<^verbatim>\<open>mean\<close> returns 180 and
  \<^verbatim>\<open>median\<close> returns 100.
\<close>

theorem filter_example:
  assumes "fp_rounding rnd"
  shows "mean rnd [100, 100, 100, 100, 500] = 180 \<and> fst (median [100, 100, 100, 100, 500]) = 100"
  using mean_example [OF assms] by (simp add: median_example)

theorem filter_example_witness:
  "fp_rounding (\<lambda>x. x) \<and> mean (\<lambda>x. x) [100, 100, 100, 100, 500] = 180 \<and>
   fst (median [100, 100, 100, 100, 500]) = 100"
  using filter_example [OF fp_rounding_id] fp_rounding_id by blast

text \<open>
  C6. With a start count of 1000 and an end count of 1500 the pulse is 500 counts long,
  which is 2000 microseconds, and the distance of the single sample is the quotient
  2000 / 58 rounded to a float: it lies within \<open>1 / 1024\<close> of that quotient and between
  34.48 and 34.49. These are the values on the telemetry line of the consumer.
\<close>

theorem single_sample_distance:
  assumes "fp_rounding rnd"
  shows "pulseLengthTimerCounts (s\<lparr>pulseStart := 1000, pulseEnd := 1500\<rparr>) = 500 \<and>
    pulseLengthUS 500 = 2000 \<and>
    \<bar>distancePulse rnd 2000 - 2000 / 58\<bar> \<le> 1 / 1024 \<and>
    3448 / 100 \<le> distancePulse rnd 2000 \<and> distancePulse rnd 2000 < 3449 / 100 \<and>
    (pulseState s = PLS_CAPTURED \<and> pulseStart s = 1000 \<and> pulseEnd s = 1500 \<longrightarrow>
       (\<exists>fd speed. last (outputs (loop_consume rnd n s))
          = SerialLine n 500 2000 (distancePulse rnd 2000) fd speed))"
proof -
  have counts: "pulseLengthTimerCounts (s\<lparr>pulseStart := 1000, pulseEnd := 1500\<rparr>) = 500"
    by (simp add: pulseLengthTimerCounts_def)
  have us: "pulseLengthUS 500 = 2000"
    by (simp add: pulseLengthUS_def)
  note b = distance_bounds [OF assms]
  have lo: "(35310::real) / 1024 \<le> 2000 / 58" and hi: "(2000::real) / 58 \<le> 35311 / 1024"
    by simp_all
  from b lo hi have close: "\<bar>distancePulse rnd 2000 - 2000 / 58\<bar> \<le> 1 / 1024"
    by linarith
  from b have r: "3448 / 100 \<le> distancePulse rnd 2000" "distancePulse rnd 2000 < 3449 / 100"
    by linarith+
  have line: "\<exists>fd speed. last (outputs (loop_consume rnd n s))
          = SerialLine n 500 2000 (distancePulse rnd 2000) fd speed"
    if "pulseState s = PLS_CAPTURED" "pulseStart s = 1000" "pulseEnd s = 1500"
    using that by (simp add: loop_consume_def Let_def pulseLengthTimerCounts_def us)
  from counts us close r line show ?thesis by blast
qed

theorem single_sample_distance_witness:
  "fp_rounding (\<lambda>x. x) \<and> distancePulse (\<lambda>x. x) 2000 = 1000 / 29 \<and>
   3448 / 100 \<le> distancePulse (\<lambda>x. x) 2000 \<and> distancePulse (\<lambda>x. x) 2000 < 3449 / 100 \<and>
   pulseLengthTimerCounts ((boot 0 0 3)\<lparr>pulseStart := 1000, pulseEnd := 1500\<rparr>) = 500 \<and>
   (\<exists>fd speed. last (outputs (loop_consume (\<lambda>x. x) 7
       ((boot 0 0 3)\<lparr>pulseState := PLS_CAPTURED, pulseStart := 1000, pulseEnd := 1500\<rparr>)))
     = SerialLine 7 500 2000 (1000 / 29) fd speed)"
proof -
  let ?s = "(boot 0 0 3)\<lparr>pulseState := PLS_CAPTURED, pulseStart := 1000, pulseEnd := 1500\<rparr>"
  note w = single_sample_distance [OF fp_rounding_id, of ?s 7]
  note v = single_sample_distance [OF fp_rounding_id, of "boot 0 0 3" 7]
  have d: "distancePulse (\<lambda>x. x) 2000 = 1000 / 29"
    by (simp add: distancePulse_def fdiv_def float_of_u32_def)
  have s: "pulseState ?s = PLS_CAPTURED" "pulseStart ?s = 1000" "pulseEnd ?s = 1500"
    by simp_all
  from w s have "\<exists>fd speed. last (outputs (loop_consume (\<lambda>x. x) 7 ?s))
     = SerialLine 7 500 2000 (distancePulse (\<lambda>x. x) 2000) fd speed"
    by blast
  then have l: "\<exists>fd speed. last (outputs (loop_consume (\<lambda>x. x) 7 ?s))
     = SerialLine 7 500 2000 (1000 / 29) fd speed"
    unfolding d .
  from v have r: "3448 / 100 \<le> distancePulse (\<lambda>x. x) 2000"
      "distancePulse (\<lambda>x. x) 2000 < 3449 / 100"
      "pulseLengthTimerCounts ((boot 0 0 3)\<lparr>pulseStart := 1000, pulseEnd := 1500\<rparr>) = 500"
    by blast+
  from fp_rounding_id d r l show ?thesis
    by blast
qed

text \<open>
  C7. The consumer takes a captured sample once: in \<open>PLS_CAPTURED\<close> it sets the state
  to \<open>PLS_IDLE\<close> and issues one motor command; in every other state it changes nothing at
  all, so consuming twice is the same as consuming once. A pass of the main loop that
  starts outside \<open>PLS_CAPTURED\<close>, and any run in which \<open>PLS_CAPTURED\<close> does not occur,
  leave the filter window, its index and the number of motor commands as they were. After
  \<^verbatim>\<open>setup()\<close> the number of motor commands is the number of completed captures, less
  the one that still waits to be consumed.
\<close>

theorem consume_once_per_capture:
  "(pulseState s = PLS_CAPTURED \<longrightarrow>
      pulseState (loop_consume rnd n s) = PLS_IDLE \<and>
      motor_commands (loop_consume rnd n s) = motor_commands s + 1) \<and>
   (pulseState s \<noteq> PLS_CAPTURED \<longrightarrow> loop_consume rnd n s = s) \<and>
   loop_consume rnd n' (loop_consume rnd n s) = loop_consume rnd n s \<and>
   (pulseState s \<noteq> PLS_CAPTURED \<longrightarrow>
      filterValues (loop rnd t n s) = filterValues s \<and> currIndex (loop rnd t n s) = currIndex s \<and>
      motor_commands (loop rnd t n s) = motor_commands s) \<and>
   (PLS_CAPTURED \<notin> set (pulseState s # trace rnd es s) \<longrightarrow>
      filterValues (run rnd es s) = filterValues s \<and> currIndex (run rnd es s) = currIndex s \<and>
      motor_commands (run rnd es s) = motor_commands s) \<and>
   (let s0 = setup_fn t0 (boot tifr3 timsk3 tccr3b) in
      motor_commands (run rnd es s0) + (if pulseState (run rnd es s0) = PLS_CAPTURED then 1 else 0)
        = captures rnd es s0)"
proof -
  let ?s0 = "setup_fn t0 (boot tifr3 timsk3 tccr3b)"
  have "motor_commands (run rnd es ?s0) +
      (if pulseState (run rnd es ?s0) = PLS_CAPTURED then 1 else 0) = captures rnd es ?s0"
    using commands_captures [of rnd es ?s0] by (simp add: after_setup)
  then show ?thesis
    using loop_quiet [of s rnd t n] quiet_run [of s rnd es]
    by (simp add: Let_def loop_consume_twice loop_consume_idle pulseState_loop_consume
          motor_commands_loop_consume)
qed

theorem consume_once_per_capture_witness:
  "motor_commands (run (\<lambda>x. x)
      [Schedule 100, Capture 65500, Capture 100, Consume 130, Consume 131, Schedule 150,
       Consume 151]
      (setup_fn 0 (boot 0 0 3))) = 1 \<and>
   motor_commands
     (loop_consume (\<lambda>x. x) 130 ((boot 0 0 3)\<lparr>pulseState := PLS_CAPTURED\<rparr>)) = 1 \<and>
   loop_consume (\<lambda>x. x) 131 (boot 0 0 3) = boot 0 0 3"
proof -
  let ?s0 = "setup_fn 0 (boot 0 0 3)"
  let ?es = "[Schedule 100, Capture 65500, Capture 100, Consume 130, Consume 131, Schedule 150,
       Consume 151]"
  let ?c = "(boot 0 0 3)\<lparr>pulseState := PLS_CAPTURED\<rparr>"
  note w = consume_once_per_capture [of ?c "\<lambda>x. x" 130 131 200 ?es 0 0 0 3]
  note v = consume_once_per_capture [of "boot 0 0 3" "\<lambda>x. x" 131 131 200 "[]" 0 0 0 3]
  have c: "captures (\<lambda>x. x) ?es ?s0 = 1"
    by (simp add: pulseState_steps lastPing_steps after_setup PING_INTERVAL_def)
  have p: "pulseState (run (\<lambda>x. x) ?es ?s0) = PLS_IDLE"
    by (simp add: pulseState_steps lastPing_steps after_setup PING_INTERVAL_def)
  have pc: "pulseState ?c = PLS_CAPTURED" "motor_commands ?c = 0"
    "pulseState (boot 0 0 3) \<noteq> PLS_CAPTURED"
    by (simp_all add: boot_def motor_commands_def)
  from w have "motor_commands (run (\<lambda>x. x) ?es ?s0) +
      (if pulseState (run (\<lambda>x. x) ?es ?s0) = PLS_CAPTURED then 1 else 0)
        = captures (\<lambda>x. x) ?es ?s0"
    unfolding Let_def by blast
  then have 1: "motor_commands (run (\<lambda>x. x) ?es ?s0) = 1"
    unfolding c p by simp
  from w pc have 2: "motor_commands (loop_consume (\<lambda>x. x) 130 ?c) = 1"
    by simp
  from v pc have 3: "loop_consume (\<lambda>x. x) 131 (boot 0 0 3) = boot 0 0 3"
    by blast
  from 1 2 3 show ?thesis by blast
qed

text \<open>
  C8. \<^verbatim>\<open>median\<close> does not work on a copy: \<^verbatim>\<open>qsort\<close> sorts the array it is
  handed. The window 500, 100, 100, 100, 100 comes back as 100, 100, 100, 100, 500.
\<close>

theorem median_reorders_window:
  "length [500, 100, 100, 100, 100 :: u32] = 5 \<and>
   snd (median [500, 100, 100, 100, 100]) = [100, 100, 100, 100, 500] \<and>
   snd (median [500, 100, 100, 100, 100]) \<noteq> [500, 100, 100, 100, 100]"
  by (simp add: median_def qsort_def cmpfunc_def)

text \<open>
  C8, as the code has it. \<^verbatim>\<open>median\<close> sorts the caller's five-element array in place:
  after the call the array holds the same values as before, as a multiset, and the
  result is the element at index 2 of the array as the call leaves it. When all values
  are below \<open>2 ^ 15\<close> the array is in ascending order afterwards, so that it has kept
  its positions exactly when it was in ascending order before the call.
\<close>

theorem median_sorts_in_place:
  assumes "length w = 5"
  shows "length (snd (median w)) = 5 \<and> mset (snd (median w)) = mset w \<and>
    fst (median w) = snd (median w) ! 2 \<and>
    ((\<forall>x\<in>set w. x < 2 ^ 15) \<longrightarrow>
       snd (median w) = sort w \<and> (snd (median w) = w \<longleftrightarrow> sorted w))"
proof -
  have arr: "snd (median w) = qsort_list cmpfunc w"
    using assms by (simp add: median_def qsort_def Let_def)
  have res: "fst (median w) = snd (median w) ! 2"
    by (simp add: median_def Let_def)
  have perm: "mset (snd (median w)) = mset w"
    by (simp add: arr mset_qsort_list)
  then have "size (mset (snd (median w))) = size (mset w)"
    by simp
  then have len: "length (snd (median w)) = 5"
    using assms by simp
  have asc: "snd (median w) = sort w" if "\<forall>x\<in>set w. x < 2 ^ 15"
    using that by (simp add: arr qsort_list_sort)
  have fixed: "sort w = w \<longleftrightarrow> sorted w"
  proof
    assume "sort w = w"
    then have "sorted (sort w) = sorted w" by simp
    then show "sorted w" by simp
  next
    assume "sorted w"
    then show "sort w = w" by (rule sorted_sort_id)
  qed
  from asc fixed have same: "snd (median w) = w \<longleftrightarrow> sorted w" if "\<forall>x\<in>set w. x < 2 ^ 15"
    using that by simp
  from len perm res asc same show ?thesis by blast
qed

theorem median_sorts_in_place_witness:
  "snd (median [500, 100, 100, 100, 100]) = [100, 100, 100, 100, 500] \<and>
   fst (median [500, 100, 100, 100, 100]) = 100 \<and>
   mset (snd (median [500, 100, 100, 100, 100])) = mset [500, 100, 100, 100, 100] \<and>
   snd (median [100, 100, 100, 100, 500]) = [100, 100, 100, 100, 500]"
proof -
  let ?w = "[500, 100, 100, 100, 100 :: u32]"
  let ?v = "[100, 100, 100, 100, 500 :: u32]"
  note w = median_sorts_in_place [of ?w, simplified]
  note v = median_sorts_in_place [of ?v, simplified]
  have s: "sort ?w = ?v"
    by simp
  from w have a: "snd (median ?w) = ?v"
    by (simp add: s)
  from w have "fst (median ?w) = snd (median ?w) ! 2" by blast
  then have b: "fst (median ?w) = 100"
    unfolding a by simp
  from v have c: "snd (median ?v) = ?v"
    by simp
  from w a b c show ?thesis by simp
qed

text \<open>
  C9. The index update is an increment modulo 5 on the range 0 to 4. In every state
  reached after \<^verbatim>\<open>setup()\<close> the window has five slots, the index lies between 0 and 4 and
  equals the number of consumed captures modulo 5, and every slot that no capture has
  been written to yet still holds its initial zero.
\<close>

theorem window_index_in_range:
  "(0 \<le> sint i \<and> sint i \<le> 4 \<longrightarrow> sint (next_index i) = (sint i + 1) mod 5) \<and>
   filterValues (boot tifr3 timsk3 tccr3b) = [0, 0, 0, 0, 0] \<and>
   (let s = run rnd es (setup_fn t0 (boot tifr3 timsk3 tccr3b)) in
      length (filterValues s) = 5 \<and>
      0 \<le> sint (currIndex s) \<and> sint (currIndex s) \<le> 4 \<and>
      sint (currIndex s) = int (motor_commands s mod 5) \<and>
      (\<forall>j<5. motor_commands s \<le> j \<longrightarrow> filterValues s ! j = 0))"
proof -
  let ?s = "run rnd es (setup_fn t0 (boot tifr3 timsk3 tccr3b))"
  have ok: "window_ok ?s"
    by (rule window_ok_run [OF window_ok_boot])
  then have "sint (currIndex ?s) = int (motor_commands ?s mod 5)"
    by (simp only: window_ok_def sint_index)
  moreover have "motor_commands ?s mod 5 < 5" by simp
  ultimately have "0 \<le> sint (currIndex ?s) \<and> sint (currIndex ?s) \<le> 4 \<and>
      sint (currIndex ?s) = int (motor_commands ?s mod 5)"
    by linarith
  with ok show ?thesis
    using next_index_range [of i]
    by (simp add: Let_def window_ok_def boot_def)
qed

theorem window_index_in_range_witness:
  "sint (next_index 4) = 0 \<and> sint (next_index 2) = 3 \<and>
   filterValues (run (\<lambda>x. x) [Schedule 100, Capture 65500, Capture 100, Consume 130]
      (setup_fn 0 (boot 0 0 3))) = [544, 0, 0, 0, 0] \<and>
   currIndex (run (\<lambda>x. x) [Schedule 100, Capture 65500, Capture 100, Consume 130]
      (setup_fn 0 (boot 0 0 3))) = 1 \<and>
   motor_commands (run (\<lambda>x. x) [Schedule 100, Capture 65500, Capture 100, Consume 130]
      (setup_fn 0 (boot 0 0 3))) = 1 \<and>
   filterValues (run (\<lambda>x. x) [Schedule 100, Capture 65500, Capture 100, Consume 130]
      (setup_fn 0 (boot 0 0 3))) ! 3 = 0"
proof -
  let ?s0 = "setup_fn 0 (boot 0 0 3)"
  let ?es = "[Schedule 100, Capture 65500, Capture 100, Consume 130]"
  note w4 = window_index_in_range [of 4 0 0 3 "\<lambda>x. x" ?es 0]
  note w2 = window_index_in_range [of 2 0 0 3 "\<lambda>x. x" ?es 0]
  have mc: "motor_commands (run (\<lambda>x. x) ?es ?s0) = 1"
    by (simp add: motor_commands_steps pulseState_steps after_setup PING_INTERVAL_def)
  have fv: "filterValues (run (\<lambda>x. x) ?es ?s0) = [544, 0, 0, 0, 0]"
    by (simp add: loop_consume_def loop_schedule_def ISR_def CommandPing_def Let_def setup_fn_def
          boot_def PING_INTERVAL_def pulseLengthTimerCounts_def pulseLengthUS_def)
  from w4 have a: "sint (next_index 4) = 0" by simp
  from w2 have b: "sint (next_index 2) = 3" by simp
  from w4 have "sint (currIndex (run (\<lambda>x. x) ?es ?s0))
      = int (motor_commands (run (\<lambda>x. x) ?es ?s0) mod 5)"
    unfolding Let_def by blast
  then have "sint (currIndex (run (\<lambda>x. x) ?es ?s0)) = sint (1 :: int16)"
    unfolding mc by simp
  then have c: "currIndex (run (\<lambda>x. x) ?es ?s0) = 1"
    by (rule signed_word_eqI)
  from w4 have "\<forall>j<5. motor_commands (run (\<lambda>x. x) ?es ?s0) \<le> j \<longrightarrow>
      filterValues (run (\<lambda>x. x) ?es ?s0) ! j = 0"
    unfolding Let_def by blast
  then have d: "filterValues (run (\<lambda>x. x) ?es ?s0) ! 3 = 0"
    unfolding mc by simp
  from a b c d fv mc show ?thesis by blast
qed

text \<open>
  C10. An execution of the interrupt routine while \<open>pulseState\<close> is \<open>PLS_IDLE\<close> or
  \<open>PLS_CAPTURED\<close> leaves the whole state as it was, and so does an edge on the echo pin
  in these two states, whatever the capture unit is set to. The routine writes
  \<open>pulseStart\<close> only in \<open>PLS_WAITING_LOW\<close>, \<open>pulseEnd\<close> only in \<open>PLS_WAITING_HIGH\<close>, and
  \<open>pulseState\<close> only in these two states.
\<close>

theorem isr_outside_cycle_unchanged:
  "(pulseState s = PLS_IDLE \<or> pulseState s = PLS_CAPTURED \<longrightarrow>
      ISR icr3 s = s \<and> capture_unit up icr3 s = s) \<and>
   (pulseStart (ISR icr3 s) \<noteq> pulseStart s \<longrightarrow> pulseState s = PLS_WAITING_LOW) \<and>
   (pulseEnd (ISR icr3 s) \<noteq> pulseEnd s \<longrightarrow> pulseState s = PLS_WAITING_HIGH) \<and>
   (pulseState (ISR icr3 s) \<noteq> pulseState s \<longrightarrow>
      pulseState s = PLS_WAITING_LOW \<or> pulseState s = PLS_WAITING_HIGH)"
  by (simp add: ISR_def capture_unit_def)

theorem isr_outside_cycle_unchanged_witness:
  "ISR 7 (boot 0 0 3) = boot 0 0 3 \<and>
   capture_unit True 7 (boot 0 0 3) = boot 0 0 3 \<and>
   ISR 7 ((boot 0 0 3)\<lparr>pulseState := PLS_CAPTURED\<rparr>)
     = (boot 0 0 3)\<lparr>pulseState := PLS_CAPTURED\<rparr> \<and>
   pulseStart (ISR 7 ((boot 0 0 3)\<lparr>pulseState := PLS_WAITING_LOW\<rparr>)) = 7 \<and>
   pulseEnd (ISR 7 ((boot 0 0 3)\<lparr>pulseState := PLS_WAITING_HIGH\<rparr>)) = 7"
  using isr_outside_cycle_unchanged [of "boot 0 0 3" 7 True]
    isr_outside_cycle_unchanged [of "(boot 0 0 3)\<lparr>pulseState := PLS_CAPTURED\<rparr>" 7 True]
    isr_outside_cycle_unchanged [of "(boot 0 0 3)\<lparr>pulseState := PLS_WAITING_LOW\<rparr>" 7 True]
    isr_outside_cycle_unchanged [of "(boot 0 0 3)\<lparr>pulseState := PLS_WAITING_HIGH\<rparr>" 7 True]
  by (simp add: boot_def ISR_def)

end
